theory Spec2Isabelle
  imports Main "HOL-Library.Word"
begin

section \<open>common.hpp\<close>

text \<open>\<^verbatim>\<open>#define CBS_EOL "\r\n"\<close>: carriage return, line feed.\<close>

definition CBS_EOL :: string where
  "CBS_EOL = [CHR 0x0D, CHR 0x0A]"

section \<open>Exceptions\<close>

text \<open>
  The three exception classes the store can raise: \<^verbatim>\<open>std::invalid_argument\<close>
  (thrown by \<^verbatim>\<open>StringIdMap::add\<close>), \<^verbatim>\<open>std::out_of_range\<close> (thrown by
  every \<^verbatim>\<open>.at()\<close> of an unordered map) and \<^verbatim>\<open>std::runtime_error\<close>
  (thrown by \<^verbatim>\<open>BookingData::add_theaters_to_movie\<close>). A member function that
  can throw returns its outcome together with the object as the throw left it.
\<close>

datatype exn = InvalidArgument | OutOfRange | RuntimeError

section \<open>Unordered containers\<close>

text \<open>
  A \<^verbatim>\<open>std::unordered_map\<close> is kept as the list of its entries in iteration order.
  The standard leaves that order open; a new entry is put first here, and no statement
  below depends on where it is put. The set argument of an operation
  (\<^verbatim>\<open>std::unordered_set\<close>) is the list of its elements in the order the range-for
  loops visit them; the loops of one call visit them in the same order, since nothing
  changes the set between them.
\<close>

type_synonym ('k, 'v) umap = "('k \<times> 'v) list"

text \<open>\<^verbatim>\<open>m.find(k) != m.end()\<close>\<close>

definition um_contains :: "('k, 'v) umap \<Rightarrow> 'k \<Rightarrow> bool" where
  "um_contains m k = (map_of m k \<noteq> None)"

text \<open>\<^verbatim>\<open>m.at(k)\<close>, which throws \<^verbatim>\<open>std::out_of_range\<close> on a missing key.\<close>

definition um_at :: "('k, 'v) umap \<Rightarrow> 'k \<Rightarrow> exn + 'v" where
  "um_at m k = (case map_of m k of None \<Rightarrow> Inl OutOfRange | Some v \<Rightarrow> Inr v)"

text \<open>
  Writing through a reference to the value stored under a key: the entry found for the
  key gets the new value, the order of the entries stays.
\<close>

fun um_store :: "'k \<Rightarrow> 'v \<Rightarrow> ('k, 'v) umap \<Rightarrow> ('k, 'v) umap" where
  "um_store k v [] = []"
| "um_store k v ((k', v') # rest) =
     (if k' = k then (k', v) # rest else (k', v') # um_store k v rest)"

text \<open>\<^verbatim>\<open>m[k] = v\<close>: overwrites the value of a present key, inserts otherwise.\<close>

definition um_assign :: "'k \<Rightarrow> 'v \<Rightarrow> ('k, 'v) umap \<Rightarrow> ('k, 'v) umap" where
  "um_assign k v m = (if um_contains m k then um_store k v m else (k, v) # m)"

text \<open>\<^verbatim>\<open>m.emplace(k, v)\<close>: inserts only when the key is absent.\<close>

definition um_emplace :: "'k \<Rightarrow> 'v \<Rightarrow> ('k, 'v) umap \<Rightarrow> ('k, 'v) umap" where
  "um_emplace k v m = (if um_contains m k then m else (k, v) # m)"

section \<open>Decimal output\<close>

text \<open>\<^verbatim>\<open>ss << n\<close> for an unsigned integer: its decimal digits, no padding.\<close>

definition digit :: "nat \<Rightarrow> char" where
  "digit d = ''0123456789'' ! d"

fun dec :: "nat \<Rightarrow> string" where
  "dec n = (if n < 10 then [digit n] else dec (n div 10) @ [digit (n mod 10)])"

declare dec.simps [simp del]

section \<open>stringidmap.cpp\<close>

text \<open>
  \<^verbatim>\<open>unsigned long\<close> is 64 bits wide (LP64), so \<^verbatim>\<open>++next_id\<close> wraps at
  \<open>2 ^ 64\<close>. The values of \<^verbatim>\<open>id_strings\<close> are \<^verbatim>\<open>const char*\<close>
  into the strings owned by \<^verbatim>\<open>strings\<close>; read as C strings they end at the
  first NUL byte.
\<close>

type_synonym ulong = "64 word"

record StringIdMap =
  next_id :: ulong
  id_strings :: "(ulong, string) umap"
  strings :: "string set"
  cached_list :: string

definition c_str :: "string \<Rightarrow> string" where
  "c_str s = takeWhile (\<lambda>c. c \<noteq> CHR 0x00) s"

text \<open>The constructor: \<^verbatim>\<open>next_id(1), cached_list(new std::string(""))\<close>.\<close>

definition StringIdMap_new :: StringIdMap where
  "StringIdMap_new = \<lparr>next_id = 1, id_strings = [], strings = {}, cached_list = []\<rparr>"

text \<open>The loop of \<^verbatim>\<open>rebuild_cache\<close> over \<^verbatim>\<open>id_strings\<close>; \<open>ss\<close> is the stream.\<close>

fun id_lines :: "(ulong \<times> string) list \<Rightarrow> string \<Rightarrow> string" where
  "id_lines [] ss = ss"
| "id_lines ((i, str) # rest) ss = id_lines rest (ss @ dec (unat i) @ '','' @ str @ CBS_EOL)"

definition StringIdMap_rebuild_cache :: "StringIdMap \<Rightarrow> StringIdMap" where
  "StringIdMap_rebuild_cache m = m\<lparr>cached_list := id_lines (id_strings m) []\<rparr>"

text \<open>First loop of \<^verbatim>\<open>add\<close>: does some name of the batch already exist?\<close>

fun name_exists :: "string set \<Rightarrow> string list \<Rightarrow> bool" where
  "name_exists known [] = False"
| "name_exists known (name # rest) = (if name \<in> known then True else name_exists known rest)"

text \<open>Second loop of \<^verbatim>\<open>add\<close>: insert every name under a fresh id.\<close>

fun insert_names :: "string list \<Rightarrow> StringIdMap \<Rightarrow> ulong list \<Rightarrow> StringIdMap \<times> ulong list" where
  "insert_names [] m inserted_ids = (m, inserted_ids)"
| "insert_names (name # rest) m inserted_ids =
     insert_names rest
       (m\<lparr>strings := insert name (strings m),
          id_strings := um_assign (next_id m) (c_str name) (id_strings m),
          next_id := next_id m + 1\<rparr>)
       (inserted_ids @ [next_id m])"

definition StringIdMap_add :: "string list \<Rightarrow> StringIdMap \<Rightarrow> (exn + ulong list) \<times> StringIdMap" where
  "StringIdMap_add strings_in m =
     (if name_exists (strings m) strings_in then (Inl InvalidArgument, m)
      else case insert_names strings_in m [] of
             (m', inserted_ids) \<Rightarrow> (Inr inserted_ids, StringIdMap_rebuild_cache m'))"

definition StringIdMap_get_id_string_list :: "StringIdMap \<Rightarrow> string" where
  "StringIdMap_get_id_string_list m = cached_list m"

definition StringIdMap_has_id :: "StringIdMap \<Rightarrow> ulong \<Rightarrow> bool" where
  "StringIdMap_has_id m string_id = um_contains (id_strings m) string_id"

definition StringIdMap_get_string :: "StringIdMap \<Rightarrow> ulong \<Rightarrow> exn + string" where
  "StringIdMap_get_string m string_id = um_at (id_strings m) string_id"

text \<open>\<^verbatim>\<open>get_sorted_keys\<close>: the keys as a \<^verbatim>\<open>std::set\<close>, ascending and without repeats.\<close>

definition StringIdMap_get_sorted_keys :: "StringIdMap \<Rightarrow> ulong list" where
  "StringIdMap_get_sorted_keys m = sorted_list_of_set (set (map fst (id_strings m)))"

definition StringIdMap_clear :: "StringIdMap \<Rightarrow> StringIdMap" where
  "StringIdMap_clear m = StringIdMap_rebuild_cache (m\<lparr>id_strings := [], strings := {}\<rparr>)"

section \<open>bookingdata.hpp\<close>

text \<open>
  \<^verbatim>\<open>SeatId\<close> is \<^verbatim>\<open>size_t\<close>. No arithmetic is done on a seat index, it is
  only compared and used as a subscript, so it is a natural number here.
  \<^verbatim>\<open>MovieId\<close> and \<^verbatim>\<open>TheaterId\<close> are \<^verbatim>\<open>unsigned long\<close>.
\<close>

definition SEATS_PER_ROOM :: nat where
  "SEATS_PER_ROOM = 20"

type_synonym SeatId = nat
type_synonym MovieId = ulong
type_synonym TheaterId = ulong

datatype BookingResult = ACCEPTED | NOT_AVAILABLE | INVALID

section \<open>bookingdata.cpp: CinemaRoom\<close>

text \<open>
  \<^verbatim>\<open>std::array<bool, SEATS_PER_ROOM> seat_available\<close> is a list of booleans whose
  \<^verbatim>\<open>size()\<close> is its length; the constructor makes it \<open>SEATS_PER_ROOM\<close> long and
  nothing changes the length afterwards.
\<close>

record CinemaRoom =
  seat_cache :: string
  seat_available :: "bool list"

text \<open>
  The loop of \<^verbatim>\<open>CinemaRoom::rebuild_cache\<close>, from index \<open>idx\<close> on, with the
  flag \<open>first\<close> and the stream \<open>ss\<close>.
\<close>

function seat_loop :: "bool list \<Rightarrow> nat \<Rightarrow> bool \<Rightarrow> string \<Rightarrow> string" where
  "seat_loop sa idx first ss =
     (if idx < length sa then
        (if sa ! idx then
           seat_loop sa (idx + 1) False ((if first then ss else ss @ '','') @ dec idx)
         else seat_loop sa (idx + 1) first ss)
      else ss)"
  by pat_completeness auto
termination
  by (relation "measure (\<lambda>(sa, idx, first, ss). length sa - idx)") auto

declare seat_loop.simps [simp del]

definition CinemaRoom_rebuild_cache :: "CinemaRoom \<Rightarrow> CinemaRoom" where
  "CinemaRoom_rebuild_cache r = r\<lparr>seat_cache := seat_loop (seat_available r) 0 True [] @ CBS_EOL\<rparr>"

text \<open>The constructor: every seat available, then the cache is built.\<close>

definition CinemaRoom_new :: CinemaRoom where
  "CinemaRoom_new =
     CinemaRoom_rebuild_cache \<lparr>seat_cache = [], seat_available = replicate SEATS_PER_ROOM True\<rparr>"

definition CinemaRoom_get_seats :: "CinemaRoom \<Rightarrow> string" where
  "CinemaRoom_get_seats r = seat_cache r"

text \<open>
  First loop of \<^verbatim>\<open>CinemaRoom::book_seats\<close>: \<open>Some\<close> of the value returned from
  inside the loop, \<open>None\<close> when the loop runs to its end.
\<close>

fun check_seats :: "bool list \<Rightarrow> SeatId list \<Rightarrow> BookingResult option" where
  "check_seats sa [] = None"
| "check_seats sa (seat # rest) =
     (if seat \<ge> length sa then Some INVALID
      else if \<not> sa ! seat then Some NOT_AVAILABLE
      else check_seats sa rest)"

text \<open>Second loop: \<^verbatim>\<open>seat_available[seat] = false\<close> for every requested seat.\<close>

fun mark_seats :: "SeatId list \<Rightarrow> bool list \<Rightarrow> bool list" where
  "mark_seats [] sa = sa"
| "mark_seats (seat # rest) sa = mark_seats rest (sa[seat := False])"

definition CinemaRoom_book_seats :: "SeatId list \<Rightarrow> CinemaRoom \<Rightarrow> BookingResult \<times> CinemaRoom" where
  "CinemaRoom_book_seats seats_to_book r =
     (case check_seats (seat_available r) seats_to_book of
        Some result \<Rightarrow> (result, r)
      | None \<Rightarrow>
          (ACCEPTED,
           CinemaRoom_rebuild_cache
             (r\<lparr>seat_available := mark_seats seats_to_book (seat_available r)\<rparr>)))"

section \<open>bookingdata.cpp: BookingData\<close>

text \<open>
  Every \<^verbatim>\<open>CinemaRoom\<close> is made by one \<^verbatim>\<open>std::make_shared\<close> in
  \<^verbatim>\<open>add_theaters_to_movie\<close> and stored under one key only, so no two entries of
  \<^verbatim>\<open>rooms\<close> share a room and the map holds the rooms themselves.
\<close>

record BookingData =
  movie_list :: StringIdMap
  theater_list :: StringIdMap
  rooms :: "(MovieId, (TheaterId, CinemaRoom) umap) umap"
  theaters_per_movie_cache :: "(MovieId, string) umap"

text \<open>The loop of \<^verbatim>\<open>rebuild_cache(movie_id)\<close>; \<^verbatim>\<open>get_string\<close> may throw.\<close>

fun theater_lines :: "StringIdMap \<Rightarrow> (TheaterId \<times> CinemaRoom) list \<Rightarrow> string \<Rightarrow> exn + string" where
  "theater_lines tlist [] ss = Inr ss"
| "theater_lines tlist ((theater_id, room) # rest) ss =
     (case StringIdMap_get_string tlist theater_id of
        Inl e \<Rightarrow> Inl e
      | Inr name \<Rightarrow> theater_lines tlist rest (ss @ dec (unat theater_id) @ '','' @ name @ CBS_EOL))"

definition BookingData_rebuild_cache_movie :: "MovieId \<Rightarrow> BookingData \<Rightarrow> (exn + unit) \<times> BookingData" where
  "BookingData_rebuild_cache_movie movie_id bd =
     (case StringIdMap_get_string (movie_list bd) movie_id of
        Inl e \<Rightarrow> (Inl e, bd)
      | Inr movie_title \<Rightarrow>
          (case um_at (rooms bd) movie_id of
             Inl e \<Rightarrow> (Inl e, bd)
           | Inr rooms_for_movie \<Rightarrow>
               (case theater_lines (theater_list bd) rooms_for_movie [] of
                  Inl e \<Rightarrow> (Inl e, bd)
                | Inr ss \<Rightarrow>
                    (Inr (),
                     bd\<lparr>theaters_per_movie_cache :=
                          um_assign movie_id ss (theaters_per_movie_cache bd)\<rparr>))))"

text \<open>The loop of \<^verbatim>\<open>rebuild_cache()\<close> over the keys of \<^verbatim>\<open>rooms\<close>.\<close>

fun rebuild_each :: "MovieId list \<Rightarrow> BookingData \<Rightarrow> (exn + unit) \<times> BookingData" where
  "rebuild_each [] bd = (Inr (), bd)"
| "rebuild_each (movie_id # rest) bd =
     (case BookingData_rebuild_cache_movie movie_id bd of
        (Inl e, bd') \<Rightarrow> (Inl e, bd')
      | (Inr u, bd') \<Rightarrow> rebuild_each rest bd')"

definition BookingData_rebuild_cache :: "BookingData \<Rightarrow> (exn + unit) \<times> BookingData" where
  "BookingData_rebuild_cache bd =
     rebuild_each (map fst (rooms bd)) (bd\<lparr>theaters_per_movie_cache := []\<rparr>)"

text \<open>The constructor: default members, then \<^verbatim>\<open>rebuild_cache()\<close>.\<close>

definition BookingData_new :: BookingData where
  "BookingData_new =
     snd (BookingData_rebuild_cache
            \<lparr>movie_list = StringIdMap_new, theater_list = StringIdMap_new,
             rooms = [], theaters_per_movie_cache = []\<rparr>)"

definition BookingData_get_movies :: "BookingData \<Rightarrow> string" where
  "BookingData_get_movies bd = StringIdMap_get_id_string_list (movie_list bd)"

definition BookingData_get_sorted_movie_ids :: "BookingData \<Rightarrow> MovieId list" where
  "BookingData_get_sorted_movie_ids bd = StringIdMap_get_sorted_keys (movie_list bd)"

definition BookingData_get_theaters_for_movie :: "BookingData \<Rightarrow> MovieId \<Rightarrow> exn + string" where
  "BookingData_get_theaters_for_movie bd movie_id = um_at (theaters_per_movie_cache bd) movie_id"

definition BookingData_get_sorted_theater_ids :: "BookingData \<Rightarrow> TheaterId list" where
  "BookingData_get_sorted_theater_ids bd = StringIdMap_get_sorted_keys (theater_list bd)"

definition BookingData_get_available_seats :: "BookingData \<Rightarrow> MovieId \<Rightarrow> TheaterId \<Rightarrow> exn + string" where
  "BookingData_get_available_seats bd movie_id theater_id =
     (case um_at (rooms bd) movie_id of
        Inl e \<Rightarrow> Inl e
      | Inr rooms_for_movie \<Rightarrow>
          (case um_at rooms_for_movie theater_id of
             Inl e \<Rightarrow> Inl e
           | Inr room \<Rightarrow> Inr (CinemaRoom_get_seats room)))"

text \<open>
  \<^verbatim>\<open>book_seats\<close> books through the pointer stored under
  \<open>(movie_id, theater_id)\<close>: the room behind it is replaced by the booked one.
\<close>

definition BookingData_book_seats ::
  "MovieId \<Rightarrow> TheaterId \<Rightarrow> SeatId list \<Rightarrow> BookingData \<Rightarrow> (exn + BookingResult) \<times> BookingData" where
  "BookingData_book_seats movie_id theater_id seats bd =
     (case um_at (rooms bd) movie_id of
        Inl e \<Rightarrow> (Inl e, bd)
      | Inr rooms_for_movie \<Rightarrow>
          (case um_at rooms_for_movie theater_id of
             Inl e \<Rightarrow> (Inl e, bd)
           | Inr room \<Rightarrow>
               (case CinemaRoom_book_seats seats room of
                  (result, room') \<Rightarrow>
                    (Inr result,
                     bd\<lparr>rooms :=
                          um_store movie_id (um_store theater_id room' rooms_for_movie)
                            (rooms bd)\<rparr>))))"

text \<open>The loop of \<^verbatim>\<open>add_movies\<close> over the ids that \<^verbatim>\<open>movie_list.add\<close> returned.\<close>

fun new_movie_rooms :: "MovieId list \<Rightarrow> BookingData \<Rightarrow> (exn + unit) \<times> BookingData" where
  "new_movie_rooms [] bd = (Inr (), bd)"
| "new_movie_rooms (movie_id # rest) bd =
     (case BookingData_rebuild_cache_movie movie_id
             (bd\<lparr>rooms := um_assign movie_id [] (rooms bd)\<rparr>) of
        (Inl e, bd') \<Rightarrow> (Inl e, bd')
      | (Inr u, bd') \<Rightarrow> new_movie_rooms rest bd')"

definition BookingData_add_movies :: "string list \<Rightarrow> BookingData \<Rightarrow> (exn + unit) \<times> BookingData" where
  "BookingData_add_movies movies bd =
     (case StringIdMap_add movies (movie_list bd) of
        (Inl e, ml) \<Rightarrow> (Inl e, bd\<lparr>movie_list := ml\<rparr>)
      | (Inr inserted_ids, ml) \<Rightarrow> new_movie_rooms inserted_ids (bd\<lparr>movie_list := ml\<rparr>))"

definition BookingData_add_theaters :: "string list \<Rightarrow> BookingData \<Rightarrow> (exn + unit) \<times> BookingData" where
  "BookingData_add_theaters theaters bd =
     (case StringIdMap_add theaters (theater_list bd) of
        (Inl e, tlist) \<Rightarrow> (Inl e, bd\<lparr>theater_list := tlist\<rparr>)
      | (Inr inserted_ids, tlist) \<Rightarrow> (Inr (), bd\<lparr>theater_list := tlist\<rparr>))"

text \<open>First loop of \<^verbatim>\<open>add_theaters_to_movie\<close>: is some theater already showing the movie?\<close>

fun already_displaying :: "(TheaterId, CinemaRoom) umap \<Rightarrow> TheaterId list \<Rightarrow> bool" where
  "already_displaying rooms_for_this_movie [] = False"
| "already_displaying rooms_for_this_movie (theater_id # rest) =
     (if um_contains rooms_for_this_movie theater_id then True
      else already_displaying rooms_for_this_movie rest)"

text \<open>Second loop: a new room for every theater of the batch.\<close>

fun create_rooms :: "TheaterId list \<Rightarrow> (TheaterId, CinemaRoom) umap \<Rightarrow> (TheaterId, CinemaRoom) umap" where
  "create_rooms [] rooms_for_this_movie = rooms_for_this_movie"
| "create_rooms (theater_id # rest) rooms_for_this_movie =
     create_rooms rest (um_emplace theater_id CinemaRoom_new rooms_for_this_movie)"

text \<open>
  \<^verbatim>\<open>rooms_for_this_movie\<close> is a reference into \<^verbatim>\<open>rooms\<close>, so the new rooms
  are in the store before \<^verbatim>\<open>rebuild_cache(movie_id)\<close> runs, and stay there when
  it throws.
\<close>

definition BookingData_add_theaters_to_movie ::
  "MovieId \<Rightarrow> TheaterId list \<Rightarrow> BookingData \<Rightarrow> (exn + unit) \<times> BookingData" where
  "BookingData_add_theaters_to_movie movie_id theaters bd =
     (case um_at (rooms bd) movie_id of
        Inl e \<Rightarrow> (Inl e, bd)
      | Inr rooms_for_this_movie \<Rightarrow>
          if already_displaying rooms_for_this_movie theaters then (Inl RuntimeError, bd)
          else BookingData_rebuild_cache_movie movie_id
                 (bd\<lparr>rooms :=
                      um_store movie_id (create_rooms theaters rooms_for_this_movie)
                        (rooms bd)\<rparr>))"

definition BookingData_clear :: "BookingData \<Rightarrow> (exn + unit) \<times> BookingData" where
  "BookingData_clear bd =
     BookingData_rebuild_cache
       (bd\<lparr>movie_list := StringIdMap_clear (movie_list bd),
           theater_list := StringIdMap_clear (theater_list bd),
           rooms := [],
           theaters_per_movie_cache := []\<rparr>)"

section \<open>Observations and reference listings\<close>

text \<open>
  What the properties below are stated with: the seats of a room that are available, the
  listings written out directly from the contents of a container, and the runs of
  operations from a new object.
\<close>

text \<open>The indices of the available seats, ascending.\<close>

definition available_seats :: "bool list \<Rightarrow> SeatId list" where
  "available_seats sa = filter (\<lambda>idx. sa ! idx) [0..<length sa]"

definition available :: "CinemaRoom \<Rightarrow> SeatId set" where
  "available r = set (available_seats (seat_available r))"

text \<open>The number that a string of decimal digits denotes.\<close>

definition digit_value :: "char \<Rightarrow> nat" where
  "digit_value c = of_char c - 48"

definition decimal_value :: "string \<Rightarrow> nat" where
  "decimal_value s = foldl (\<lambda>acc c. 10 * acc + digit_value c) 0 s"

text \<open>Items separated by single commas.\<close>

fun comma_separated :: "string list \<Rightarrow> string" where
  "comma_separated [] = []"
| "comma_separated [x] = x"
| "comma_separated (x # y # rest) = x @ '','' @ comma_separated (y # rest)"

text \<open>The seat listing of an availability array: the available indices, then the end of line.\<close>

definition seat_listing :: "bool list \<Rightarrow> string" where
  "seat_listing sa = comma_separated (map dec (available_seats sa)) @ CBS_EOL"

text \<open>A room after a sequence of booking requests, whatever each of them returned.\<close>

fun bookings :: "SeatId list list \<Rightarrow> CinemaRoom \<Rightarrow> CinemaRoom" where
  "bookings [] r = r"
| "bookings (seats # rest) r = bookings rest (snd (CinemaRoom_book_seats seats r))"

text \<open>
  A run of \<^verbatim>\<open>add\<close> and \<^verbatim>\<open>clear\<close> calls on one table: the ids issued, in
  the order of issue, and the table at the end; \<open>None\<close> when some \<^verbatim>\<open>add\<close>
  throws.
\<close>

datatype table_op = Add "string list" | Clear

fun run_ops :: "table_op list \<Rightarrow> StringIdMap \<Rightarrow> (ulong list \<times> StringIdMap) option" where
  "run_ops [] m = Some ([], m)"
| "run_ops (Add strings_in # rest) m =
     (case StringIdMap_add strings_in m of
        (Inl e, m') \<Rightarrow> None
      | (Inr inserted_ids, m') \<Rightarrow>
          (case run_ops rest m' of
             None \<Rightarrow> None
           | Some (later_ids, m'') \<Rightarrow> Some (inserted_ids @ later_ids, m'')))"
| "run_ops (Clear # rest) m = run_ops rest (StringIdMap_clear m)"

text \<open>The ids issued by a run that starts from a new table.\<close>

definition issued_ids :: "table_op list \<Rightarrow> ulong list option" where
  "issued_ids ops = map_option fst (run_ops ops StringIdMap_new)"

text \<open>The room stored for a movie and a theater, if there is one.\<close>

definition room_at :: "BookingData \<Rightarrow> MovieId \<Rightarrow> TheaterId \<Rightarrow> CinemaRoom option" where
  "room_at bd movie_id theater_id =
     (case map_of (rooms bd) movie_id of
        None \<Rightarrow> None
      | Some rooms_for_movie \<Rightarrow> map_of rooms_for_movie theater_id)"

text \<open>The keys of \<^verbatim>\<open>rooms\<close>: every movie with its theaters, in iteration order.\<close>

definition room_keys :: "BookingData \<Rightarrow> (MovieId \<times> TheaterId list) list" where
  "room_keys bd =
     map (\<lambda>(movie_id, rooms_for_movie). (movie_id, map fst rooms_for_movie)) (rooms bd)"

text \<open>
  The listing of an id-to-name map written out from its entries: one line
  \<open>id,name\<close> and an end of line for each.
\<close>

definition id_listing :: "(ulong \<times> string) list \<Rightarrow> string" where
  "id_listing entries = concat (map (\<lambda>(i, name). dec (unat i) @ '','' @ name @ CBS_EOL) entries)"

text \<open>
  The theater listing of a movie written out from the theaters of its rooms and the
  names of the theater table; there is none when a theater has no name.
\<close>

fun theater_listing :: "(ulong \<times> string) list \<Rightarrow> TheaterId list \<Rightarrow> string option" where
  "theater_listing names [] = Some []"
| "theater_listing names (theater_id # rest) =
     (case map_of names theater_id of
        None \<Rightarrow> None
      | Some name \<Rightarrow>
          (case theater_listing names rest of
             None \<Rightarrow> None
           | Some lines \<Rightarrow> Some (dec (unat theater_id) @ '','' @ name @ CBS_EOL @ lines)))"

text \<open>The cached theater listing of a movie is the one written out from its rooms.\<close>

definition theaters_cache_agrees :: "BookingData \<Rightarrow> MovieId \<Rightarrow> bool" where
  "theaters_cache_agrees bd movie_id =
     (case map_of (rooms bd) movie_id of
        None \<Rightarrow> False
      | Some rooms_for_movie \<Rightarrow>
          (case theater_listing (id_strings (theater_list bd)) (map fst rooms_for_movie) of
             None \<Rightarrow> False
           | Some lines \<Rightarrow> map_of (theaters_per_movie_cache bd) movie_id = Some lines))"

text \<open>A movie with no theater yet and an empty theater listing.\<close>

definition fresh_movie :: "BookingData \<Rightarrow> MovieId \<Rightarrow> bool" where
  "fresh_movie bd movie_id \<longleftrightarrow>
     map_of (rooms bd) movie_id = Some []
     \<and> map_of (theaters_per_movie_cache bd) movie_id = Some []"

text \<open>
  The store of the booking scenario, step by step: one movie, two theaters, both
  theaters showing the movie.
\<close>

definition scenario_movies :: BookingData where
  "scenario_movies = snd (BookingData_add_movies [''M''] BookingData_new)"

definition scenario_theaters :: BookingData where
  "scenario_theaters = snd (BookingData_add_theaters [''T'', ''U''] scenario_movies)"

definition scenario_store :: BookingData where
  "scenario_store = snd (BookingData_add_theaters_to_movie 1 [1, 2] scenario_theaters)"

section \<open>StringIdMap: batch add is atomic\<close>

lemma name_exists_iff: "name_exists known names \<longleftrightarrow> (\<exists>name \<in> set names. name \<in> known)"
  by (induction names) auto

text \<open>
  C4. When at least one name of the batch is already in the table, \<^verbatim>\<open>add\<close> throws
  \<^verbatim>\<open>std::invalid_argument\<close> and the table (counter, id map, name set, cache) is
  the one it was called on.
\<close>

theorem add_duplicate_leaves_table:
  assumes "\<exists>name \<in> set strings_in. name \<in> strings m"
  shows "StringIdMap_add strings_in m = (Inl InvalidArgument, m)"
  using assms by (simp add: StringIdMap_add_def name_exists_iff)

theorem add_duplicate_leaves_table_witness:
  "(\<exists>name \<in> set [''Terminator''].
      name \<in> strings (snd (StringIdMap_add [''Terminator'', ''The Matrix''] StringIdMap_new)))
   \<and> StringIdMap_add [''Terminator'']
        (snd (StringIdMap_add [''Terminator'', ''The Matrix''] StringIdMap_new))
     = (Inl InvalidArgument,
        snd (StringIdMap_add [''Terminator'', ''The Matrix''] StringIdMap_new))"
proof -
  have h: "\<exists>name \<in> set [''Terminator''].
      name \<in> strings (snd (StringIdMap_add [''Terminator'', ''The Matrix''] StringIdMap_new))"
    by (simp add: StringIdMap_add_def StringIdMap_new_def StringIdMap_rebuild_cache_def)
  from add_duplicate_leaves_table [OF h] h show ?thesis by blast
qed

section \<open>StringIdMap: the ids that add returns\<close>

lemma insert_names_ids:
  "insert_names names m acc = (m', ids) \<Longrightarrow>
   ids = acc @ map (\<lambda>i. next_id m + of_nat i) [0..<length names]
   \<and> next_id m' = next_id m + of_nat (length names)"
proof (induction names arbitrary: m acc)
  case Nil
  then show ?case by simp
next
  case (Cons name rest)
  let ?m1 = "m\<lparr>strings := insert name (strings m),
          id_strings := um_assign (next_id m) (c_str name) (id_strings m),
          next_id := next_id m + 1\<rparr>"
  from Cons.prems have "insert_names rest ?m1 (acc @ [next_id m]) = (m', ids)" by simp
  from Cons.IH [OF this] show ?case
    by (simp add: map_upt_Suc add.assoc del: upt_Suc)
qed

lemma next_id_rebuild_cache [simp]: "next_id (StringIdMap_rebuild_cache m) = next_id m"
  by (simp add: StringIdMap_rebuild_cache_def)

lemma add_ids:
  assumes "StringIdMap_add names m = (Inr ids, m')"
  shows "ids = map (\<lambda>i. next_id m + of_nat i) [0..<length names]"
    and "next_id m' = next_id m + of_nat (length names)"
  using assms insert_names_ids [of names m "[]"]
  by (auto simp: StringIdMap_add_def split: if_splits prod.splits)

lemma unat_plus_of_nat:
  assumes "unat (n :: ulong) + i < 2 ^ 64"
  shows "unat (n + of_nat i) = unat n + i"
proof -
  from assms have i: "i < 2 ^ 64" by simp
  then have "unat (of_nat i :: ulong) = i"
    by (simp add: unat_of_nat)
  moreover from this assms have "unat n + unat (of_nat i :: ulong) < 2 ^ LENGTH(64)"
    by simp
  ultimately show ?thesis
    by (simp add: unat_add_lem [THEN iffD1])
qed

lemma ids_no_wrap:
  assumes "unat (n :: ulong) + k \<le> 2 ^ 64"
  shows "map unat (map (\<lambda>i. n + of_nat i) [0..<k]) = [unat n ..< unat n + k]"
proof -
  have "map unat (map (\<lambda>i. n + of_nat i) [0..<k]) = map (\<lambda>i. unat n + i) [0..<k]"
    using assms by (simp add: unat_plus_of_nat)
  also have "\<dots> = [unat n ..< unat n + k]"
    using map_add_upt [of "unat n" k] by (simp add: add.commute)
  finally show ?thesis .
qed

text \<open>
  C9. A successful \<^verbatim>\<open>add\<close> of \<open>k\<close> names to a table whose counter is
  \<open>n\<close> returns \<open>k\<close> ids, the one at position \<open>i\<close> being \<open>n + i\<close> in
  64-bit arithmetic. As long as \<open>n + k \<le> 2 ^ 64\<close> these are the consecutive
  integers \<open>n, \<dots>, n + k - 1\<close>, increasing with the position.
\<close>

theorem add_returns_consecutive_ids:
  assumes "StringIdMap_add names m = (Inr ids, m')"
  shows "length ids = length names
    \<and> ids = map (\<lambda>i. next_id m + of_nat i) [0..<length names]
    \<and> (unat (next_id m) + length names \<le> 2 ^ 64 \<longrightarrow>
         map unat ids = [unat (next_id m) ..< unat (next_id m) + length names])"
  using add_ids(1) [OF assms] ids_no_wrap [of "next_id m" "length names"] by simp

theorem add_returns_consecutive_ids_witness:
  "StringIdMap_add [''Terminator'', ''The Matrix''] StringIdMap_new
     = (Inr [1, 2], snd (StringIdMap_add [''Terminator'', ''The Matrix''] StringIdMap_new))
   \<and> unat (next_id StringIdMap_new) + length [''Terminator'', ''The Matrix''] \<le> 2 ^ 64
   \<and> map unat [1, 2 :: ulong] = [1, 2]"
proof -
  have run: "StringIdMap_add [''Terminator'', ''The Matrix''] StringIdMap_new
     = (Inr [1, 2], snd (StringIdMap_add [''Terminator'', ''The Matrix''] StringIdMap_new))"
    by (simp add: StringIdMap_add_def StringIdMap_new_def)
  have bound: "unat (next_id StringIdMap_new) + length [''Terminator'', ''The Matrix''] \<le> 2 ^ 64"
    by (simp add: StringIdMap_new_def)
  from add_returns_consecutive_ids [OF run] bound have
    "map unat [1, 2 :: ulong]
       = [unat (next_id StringIdMap_new)..<unat (next_id StringIdMap_new)
            + length [''Terminator'', ''The Matrix'']]"
    by blast
  also have "\<dots> = [1, 2]"
    by (simp add: StringIdMap_new_def)
  finally have "map unat [1, 2 :: ulong] = [1, 2]" .
  with run bound show ?thesis by blast
qed

text \<open>
  Without the bound the ids are not consecutive integers: with the counter at
  \<open>2 ^ 64 - 1\<close>, two names get the ids \<open>2 ^ 64 - 1\<close> and \<open>0\<close>.
\<close>

theorem add_ids_wrap:
  "fst (StringIdMap_add [''a'', ''b''] (StringIdMap_new\<lparr>next_id := 18446744073709551615\<rparr>))
     = Inr [18446744073709551615, 0]
   \<and> map unat [18446744073709551615, 0 :: ulong] \<noteq> [18446744073709551615, 18446744073709551616]"
  by (simp add: StringIdMap_add_def StringIdMap_new_def)

section \<open>StringIdMap: ids over a run of add and clear\<close>

lemma upt_shift: "[a..<a + k] = map (\<lambda>i. a + i) [0..<k]"
  using map_add_upt [of a k] by (simp add: add.commute)

lemma map_upt_split:
  "map g [0..<a + k] = map g [0..<a] @ map (\<lambda>i. g (a + i)) [0..<k]"
proof -
  have "[0..<a + k] = [0..<a] @ [a..<a + k]"
    using upt_add_eq_append [of 0 a k] by simp
  then show ?thesis by (simp add: upt_shift o_def)
qed

lemma run_ops_ids:
  "run_ops ops m = Some (ids, m') \<Longrightarrow>
   ids = map (\<lambda>i. next_id m + of_nat i) [0..<length ids]
   \<and> next_id m' = next_id m + of_nat (length ids)"
proof (induction ops m arbitrary: ids m' rule: run_ops.induct)
  case (1 m)
  then show ?case by simp
next
  case (2 strings_in rest m)
  from "2.prems" obtain inserted_ids m1 later_ids where
    add: "StringIdMap_add strings_in m = (Inr inserted_ids, m1)" and
    rest: "run_ops rest m1 = Some (later_ids, m')" and
    ids: "ids = inserted_ids @ later_ids"
    by (auto split: prod.splits sum.splits option.splits)
  from add_ids [OF add] have
    a1: "inserted_ids = map (\<lambda>i. next_id m + of_nat i) [0..<length strings_in]" and
    a2: "next_id m1 = next_id m + of_nat (length strings_in)" by simp_all
  from a1 have len: "length inserted_ids = length strings_in" by simp
  from "2.IH" [OF add [symmetric] refl rest] a2 have
    b1: "later_ids = map (\<lambda>i. next_id m + of_nat (length strings_in) + of_nat i) [0..<length later_ids]" and
    b2: "next_id m' = next_id m + of_nat (length strings_in) + of_nat (length later_ids)"
    by simp_all
  have "map (\<lambda>i. next_id m + of_nat i) [0..<length strings_in + length later_ids]
      = map (\<lambda>i. next_id m + of_nat i) [0..<length strings_in]
        @ map (\<lambda>i. next_id m + of_nat (length strings_in) + of_nat i) [0..<length later_ids]"
    by (simp add: map_upt_split add.assoc)
  with a1 b1 b2 ids len show ?case
    by (simp add: add.assoc)
next
  case (3 rest m)
  then show ?case by (simp add: StringIdMap_clear_def)
qed

lemma next_id_clear: "next_id (StringIdMap_clear m) = next_id m"
  by (simp add: StringIdMap_clear_def)

lemma run_ops_append:
  "run_ops (ops1 @ ops2) m =
     (case run_ops ops1 m of
        None \<Rightarrow> None
      | Some (ids1, m1) \<Rightarrow>
          (case run_ops ops2 m1 of
             None \<Rightarrow> None
           | Some (ids2, m2) \<Rightarrow> Some (ids1 @ ids2, m2)))"
  by (induction ops1 m rule: run_ops.induct) (auto split: prod.splits sum.splits option.splits)

lemma issued_ids_from_one:
  assumes "issued_ids ops = Some ids" and "length ids < 2 ^ 64"
  shows "map unat ids = [1..<Suc (length ids)]"
proof -
  from assms(1) obtain m where run: "run_ops ops StringIdMap_new = Some (ids, m)"
    by (auto simp: issued_ids_def)
  from run_ops_ids [OF run] have "ids = map (\<lambda>i. 1 + of_nat i) [0..<length ids]"
    by (simp add: StringIdMap_new_def)
  then have "map unat ids = map unat (map (\<lambda>i. (1::ulong) + of_nat i) [0..<length ids])"
    by simp
  also have "\<dots> = [unat (1::ulong)..<unat (1::ulong) + length ids]"
    using assms(2) by (intro ids_no_wrap) simp
  finally show ?thesis by simp
qed

lemma increasing_from_unat:
  assumes "map unat (ids :: ulong list) = [a..<b]"
  shows "sorted_wrt (<) ids" and "distinct ids"
proof -
  have "sorted_wrt (<) (map unat ids)" using assms by simp
  moreover have "(<) = (\<lambda>x y :: ulong. unat x < unat y)"
    by (auto simp: fun_eq_iff word_less_nat_alt)
  ultimately show "sorted_wrt (<) ids"
    by (simp add: sorted_wrt_map)
  have "distinct (map unat ids)" using assms by simp
  then show "distinct ids" by (simp add: distinct_map)
qed

text \<open>
  C5. In a run of successful \<^verbatim>\<open>add\<close> and \<^verbatim>\<open>clear\<close> calls on a new table
  that issues fewer than \<open>2 ^ 64\<close> ids, the ids are \<open>1, 2, 3, \<dots>\<close> in the order
  of issue: strictly increasing, pairwise different, never 0. \<^verbatim>\<open>clear\<close> keeps the
  counter, so the ids issued after a \<^verbatim>\<open>clear\<close> are greater than all the ids
  issued before it.
\<close>

theorem issued_ids_increase:
  assumes "issued_ids ops = Some ids" and "length ids < 2 ^ 64"
  shows "map unat ids = [1..<Suc (length ids)]
     \<and> sorted_wrt (<) ids \<and> distinct ids \<and> 0 \<notin> set ids
     \<and> (\<forall>m. next_id (StringIdMap_clear m) = next_id m)
     \<and> (\<forall>ops1 ops2 ids1. ops = ops1 @ Clear # ops2 \<and> issued_ids ops1 = Some ids1 \<longrightarrow>
          (\<exists>ids2. ids = ids1 @ ids2 \<and> (\<forall>a \<in> set ids1. \<forall>b \<in> set ids2. a < b)))"
proof -
  note nums = issued_ids_from_one [OF assms]
  note incr = increasing_from_unat [OF nums]
  have zero: "0 \<notin> set ids"
  proof
    assume "0 \<in> set ids"
    then have "unat (0::ulong) \<in> unat ` set ids" by (rule imageI)
    then have "0 \<in> set (map unat ids)" by simp
    then have "0 \<in> set [1..<Suc (length ids)]" by (simp only: nums)
    then show False by (simp del: upt_Suc)
  qed
  have split: "\<exists>ids2. ids = ids1 @ ids2 \<and> (\<forall>a \<in> set ids1. \<forall>b \<in> set ids2. a < b)"
    if "ops = ops1 @ Clear # ops2" and "issued_ids ops1 = Some ids1" for ops1 ops2 ids1
  proof -
    from that(2) obtain m1 where r1: "run_ops ops1 StringIdMap_new = Some (ids1, m1)"
      by (auto simp: issued_ids_def)
    from assms(1) that(1) r1 obtain ids2 where "ids = ids1 @ ids2"
      by (auto simp: issued_ids_def run_ops_append split: option.splits)
    with incr(1) show ?thesis by (auto simp: sorted_wrt_append)
  qed
  from nums incr zero split next_id_clear show ?thesis by blast
qed

theorem issued_ids_increase_witness:
  "issued_ids [Add [''Terminator'', ''The Matrix''], Clear, Add [''Terminator'']] = Some [1, 2, 3]
   \<and> length [1, 2, 3 :: ulong] < 2 ^ 64
   \<and> issued_ids [Add [''Terminator'', ''The Matrix'']] = Some [1, 2]
   \<and> map unat [1, 2, 3 :: ulong] = [1, 2, 3]
   \<and> sorted_wrt (<) [1, 2, 3 :: ulong]
   \<and> (1 :: ulong) < 3 \<and> (2 :: ulong) < 3"
proof -
  have whole: "issued_ids [Add [''Terminator'', ''The Matrix''], Clear, Add [''Terminator'']] = Some [1, 2, 3]"
    by (simp add: issued_ids_def StringIdMap_add_def StringIdMap_new_def StringIdMap_clear_def
          StringIdMap_rebuild_cache_def)
  have len: "length [1, 2, 3 :: ulong] < 2 ^ 64" by simp
  have before: "issued_ids [Add [''Terminator'', ''The Matrix'']] = Some [1, 2]"
    by (simp add: issued_ids_def StringIdMap_add_def StringIdMap_new_def)
  from issued_ids_increase [OF whole len] have
    "map unat [1, 2, 3 :: ulong] = [1..<Suc (length [1, 2, 3 :: ulong])]"
    "sorted_wrt (<) [1, 2, 3 :: ulong]"
    "\<forall>ops1 ops2 ids1.
       [Add [''Terminator'', ''The Matrix''], Clear, Add [''Terminator'']] = ops1 @ Clear # ops2
       \<and> issued_ids ops1 = Some ids1 \<longrightarrow>
       (\<exists>ids2. [1, 2, 3 :: ulong] = ids1 @ ids2 \<and> (\<forall>a \<in> set ids1. \<forall>b \<in> set ids2. a < b))"
    by blast+
  from this(3) before have
    "\<exists>ids2. [1, 2, 3 :: ulong] = [1, 2] @ ids2 \<and> (\<forall>a \<in> set [1, 2]. \<forall>b \<in> set ids2. a < b)"
    by (elim allE [of _ "[Add [''Terminator'', ''The Matrix'']]"] allE [of _ "[Add [''Terminator'']]"]
          allE [of _ "[1, 2]"]) simp
  then have "(1 :: ulong) < 3 \<and> (2 :: ulong) < 3" by auto
  with whole len before \<open>sorted_wrt (<) [1, 2, 3 :: ulong]\<close> show ?thesis by simp
qed

text \<open>
  Without the bound id 0 is assigned: after \<open>2 ^ 64 - 1\<close> rounds of adding one name
  and clearing, the counter has wrapped and the next name gets id 0.
\<close>

lemma one_round:
  assumes "id_strings m = []" "strings m = {}" "cached_list m = []"
  shows "run_ops (Add [x] # Clear # rest) m
           = (case run_ops rest (m\<lparr>next_id := next_id m + 1\<rparr>) of
                None \<Rightarrow> None
              | Some (later, m') \<Rightarrow> Some (next_id m # later, m'))"
  using assms
  by (cases m)
     (simp add: StringIdMap_add_def StringIdMap_clear_def StringIdMap_rebuild_cache_def
        split: option.splits)

lemma rounds:
  assumes "id_strings m = []" "strings m = {}" "cached_list m = []"
  shows "run_ops (concat (replicate n [Add [x], Clear]) @ rest) m
           = (case run_ops rest (m\<lparr>next_id := next_id m + of_nat n\<rparr>) of
                None \<Rightarrow> None
              | Some (later, m') \<Rightarrow> Some (map (\<lambda>i. next_id m + of_nat i) [0..<n] @ later, m'))"
  using assms
proof (induction n arbitrary: m)
  case 0
  then show ?case by (simp split: option.splits)
next
  case (Suc n)
  let ?m1 = "m\<lparr>next_id := next_id m + 1\<rparr>"
  have "run_ops (concat (replicate (Suc n) [Add [x], Clear]) @ rest) m
      = run_ops (Add [x] # Clear # (concat (replicate n [Add [x], Clear]) @ rest)) m"
    by simp
  also have "\<dots> = (case run_ops (concat (replicate n [Add [x], Clear]) @ rest) ?m1 of
                None \<Rightarrow> None
              | Some (later, m') \<Rightarrow> Some (next_id m # later, m'))"
    using Suc.prems by (rule one_round)
  also have "run_ops (concat (replicate n [Add [x], Clear]) @ rest) ?m1
      = (case run_ops rest (?m1\<lparr>next_id := next_id ?m1 + of_nat n\<rparr>) of
                None \<Rightarrow> None
              | Some (later, m') \<Rightarrow> Some (map (\<lambda>i. next_id ?m1 + of_nat i) [0..<n] @ later, m'))"
    using Suc.prems by (intro Suc.IH) simp_all
  finally show ?case
    by (simp add: map_upt_Suc add.assoc split: option.splits del: upt_Suc)
qed

text \<open>
  A new table reaches the counter value \<open>2 ^ 64 - 1\<close>, the one at which
  \<^verbatim>\<open>add\<close> of two names returns \<open>2 ^ 64 - 1\<close> and \<open>0\<close>.
\<close>

lemma counter_reaches_maximum:
  "map_option snd
     (run_ops (concat (replicate 18446744073709551614 [Add [''a''], Clear])) StringIdMap_new)
   = Some (StringIdMap_new\<lparr>next_id := 18446744073709551615\<rparr>)"
proof -
  have "run_ops (concat (replicate 18446744073709551614 [Add [''a''], Clear]) @ []) StringIdMap_new
      = (case run_ops [] (StringIdMap_new\<lparr>next_id := next_id StringIdMap_new + of_nat 18446744073709551614\<rparr>) of
                None \<Rightarrow> None
              | Some (later, m') \<Rightarrow>
                  Some (map (\<lambda>i. next_id StringIdMap_new + of_nat i) [0..<18446744073709551614] @ later, m'))"
    by (rule rounds) (simp_all add: StringIdMap_new_def)
  also have "StringIdMap_new\<lparr>next_id := next_id StringIdMap_new + of_nat 18446744073709551614\<rparr>
      = StringIdMap_new\<lparr>next_id := 18446744073709551615\<rparr>"
    by (simp add: StringIdMap_new_def)
  finally show ?thesis by simp
qed

theorem id_zero_after_wrap:
  "map_option last
     (issued_ids (concat (replicate 18446744073709551615 [Add [''a''], Clear]) @ [Add [''a'']]))
   = Some 0"
proof -
  have "run_ops (concat (replicate 18446744073709551615 [Add [''a''], Clear]) @ [Add [''a'']])
          StringIdMap_new
      = (case run_ops [Add [''a'']] (StringIdMap_new\<lparr>next_id := next_id StringIdMap_new + of_nat 18446744073709551615\<rparr>) of
                None \<Rightarrow> None
              | Some (later, m') \<Rightarrow>
                  Some (map (\<lambda>i. next_id StringIdMap_new + of_nat i) [0..<18446744073709551615] @ later, m'))"
    by (rule rounds) (simp_all add: StringIdMap_new_def)
  also have "StringIdMap_new\<lparr>next_id := next_id StringIdMap_new + of_nat 18446744073709551615\<rparr>
      = StringIdMap_new\<lparr>next_id := 0\<rparr>"
    by (simp add: StringIdMap_new_def)
  also have "run_ops [Add [''a'']] (StringIdMap_new\<lparr>next_id := 0\<rparr>)
      = Some ([0], StringIdMap_rebuild_cache
           \<lparr>next_id = 1, id_strings = [(0, ''a'')], strings = {''a''}, cached_list = []\<rparr>)"
    by (simp add: StringIdMap_new_def StringIdMap_add_def um_assign_def um_contains_def c_str_def)
  finally show ?thesis
    by (simp add: issued_ids_def)
qed

section \<open>CinemaRoom: booking\<close>

lemma check_seats_None:
  "check_seats sa seats = None \<longleftrightarrow> (\<forall>seat \<in> set seats. seat < length sa \<and> sa ! seat)"
  by (induction seats) auto

lemma check_seats_Some:
  "check_seats sa seats = Some result \<Longrightarrow> result = INVALID \<or> result = NOT_AVAILABLE"
  by (induction seats) (auto split: if_splits)

lemma length_mark_seats: "length (mark_seats seats sa) = length sa"
  by (induction seats arbitrary: sa) auto

lemma nth_mark_seats:
  "idx < length sa \<Longrightarrow> mark_seats seats sa ! idx = (sa ! idx \<and> idx \<notin> set seats)"
proof (induction seats arbitrary: sa)
  case Nil
  then show ?case by simp
next
  case (Cons seat rest)
  from Cons.prems have "idx < length (sa[seat := False])" by simp
  from Cons.IH [OF this] Cons.prems show ?case
    by (cases "seat = idx") auto
qed

lemma set_available_seats: "set (available_seats sa) = {idx. idx < length sa \<and> sa ! idx}"
  by (auto simp: available_seats_def)

lemma available_mark_seats:
  "set (available_seats (mark_seats seats sa)) = set (available_seats sa) - set seats"
  by (auto simp: set_available_seats length_mark_seats nth_mark_seats)

lemma book_seats_ACCEPTED:
  "fst (CinemaRoom_book_seats seats r) = ACCEPTED \<longleftrightarrow> check_seats (seat_available r) seats = None"
  by (auto simp: CinemaRoom_book_seats_def split: option.splits dest: check_seats_Some)

lemma available_rebuild_cache [simp]:
  "seat_available (CinemaRoom_rebuild_cache r) = seat_available r"
  by (simp add: CinemaRoom_rebuild_cache_def)

text \<open>
  A request with an index out of range is never accepted and changes nothing; it gets
  \<open>INVALID\<close> when no seat visited before the first such index is taken.
\<close>

lemma check_seats_out_of_range:
  "\<exists>seat \<in> set seats. seat \<ge> length sa \<Longrightarrow> check_seats sa seats \<noteq> None"
  by (simp add: check_seats_None) (use linorder_not_le in blast)

lemma book_seats_out_of_range:
  assumes "\<exists>seat \<in> set seats. seat \<ge> length (seat_available r)"
  shows "(fst (CinemaRoom_book_seats seats r) = INVALID
          \<or> fst (CinemaRoom_book_seats seats r) = NOT_AVAILABLE)
         \<and> snd (CinemaRoom_book_seats seats r) = r"
  using check_seats_out_of_range [OF assms]
  by (auto simp: CinemaRoom_book_seats_def split: option.splits dest: check_seats_Some)

lemma check_seats_first_failure:
  assumes "\<forall>seat \<in> set before. seat < length sa \<and> sa ! seat" and "seat \<ge> length sa"
  shows "check_seats sa (before @ seat # rest) = Some INVALID"
  using assms by (induction before) auto

text \<open>
  C2. The specification has every request that holds an index \<open>\<ge> 20\<close> return
  \<open>INVALID\<close>, whatever else it holds. The single loop of \<^verbatim>\<open>book_seats\<close> returns
  at the first seat that is out of range or taken, in the iteration order of the set:
  in a new room whose seat 0 has been booked, the request \<open>{0, 25}\<close> visited as 0, 25
  returns \<open>NOT_AVAILABLE\<close>, and visited as 25, 0 it returns \<open>INVALID\<close>.
\<close>

theorem book_seats_taken_before_invalid:
  "CinemaRoom_book_seats [0, 25] (snd (CinemaRoom_book_seats [0] CinemaRoom_new))
     = (NOT_AVAILABLE, snd (CinemaRoom_book_seats [0] CinemaRoom_new))
   \<and> fst (CinemaRoom_book_seats [25, 0] (snd (CinemaRoom_book_seats [0] CinemaRoom_new)))
     = INVALID"
  by code_simp

text \<open>
  C3. A booking that returns \<open>ACCEPTED\<close> takes exactly the requested seats out of
  the available ones; a booking that returns anything else leaves the room as it was;
  the empty request is accepted and changes no seat.
\<close>

theorem book_seats_available:
  "(fst (CinemaRoom_book_seats seats r) = ACCEPTED \<longrightarrow>
      available (snd (CinemaRoom_book_seats seats r)) = available r - set seats)
   \<and> (fst (CinemaRoom_book_seats seats r) \<noteq> ACCEPTED \<longrightarrow>
      snd (CinemaRoom_book_seats seats r) = r
      \<and> available (snd (CinemaRoom_book_seats seats r)) = available r)
   \<and> fst (CinemaRoom_book_seats [] r) = ACCEPTED
   \<and> seat_available (snd (CinemaRoom_book_seats [] r)) = seat_available r"
proof -
  have accepted: "available (snd (CinemaRoom_book_seats seats r)) = available r - set seats"
    if "fst (CinemaRoom_book_seats seats r) = ACCEPTED"
  proof -
    from that have "check_seats (seat_available r) seats = None"
      by (simp add: book_seats_ACCEPTED)
    then show ?thesis
      by (simp add: CinemaRoom_book_seats_def available_def available_mark_seats)
  qed
  have refused: "snd (CinemaRoom_book_seats seats r) = r"
    if "fst (CinemaRoom_book_seats seats r) \<noteq> ACCEPTED"
    using that by (auto simp: CinemaRoom_book_seats_def split: option.splits)
  have empty: "CinemaRoom_book_seats [] r = (ACCEPTED, CinemaRoom_rebuild_cache r)"
    by (simp add: CinemaRoom_book_seats_def)
  from accepted refused empty show ?thesis by simp
qed

theorem book_seats_available_witness:
  "fst (CinemaRoom_book_seats [0, 1, 2] CinemaRoom_new) = ACCEPTED
   \<and> available (snd (CinemaRoom_book_seats [0, 1, 2] CinemaRoom_new))
       = available CinemaRoom_new - {0, 1, 2}
   \<and> fst (CinemaRoom_book_seats [3, 25] CinemaRoom_new) \<noteq> ACCEPTED
   \<and> snd (CinemaRoom_book_seats [3, 25] CinemaRoom_new) = CinemaRoom_new"
proof -
  have a: "fst (CinemaRoom_book_seats [0, 1, 2] CinemaRoom_new) = ACCEPTED"
    by code_simp
  have b: "fst (CinemaRoom_book_seats [3, 25] CinemaRoom_new) \<noteq> ACCEPTED"
    by code_simp
  from a b book_seats_available [of "[0, 1, 2]" CinemaRoom_new]
    book_seats_available [of "[3, 25]" CinemaRoom_new]
  show ?thesis by simp
qed

section \<open>CinemaRoom: the seat listing\<close>

lemma comma_separated_snoc:
  "comma_separated (xs @ [x]) = (if xs = [] then x else comma_separated xs @ '','' @ x)"
  by (induction xs rule: comma_separated.induct) auto

text \<open>
  The loop invariant of \<^verbatim>\<open>rebuild_cache\<close>: the stream holds the listing of the
  indices below \<open>idx\<close>, and \<open>first\<close> says that there is none yet.
\<close>

lemma seat_loop_eq:
  "idx \<le> length sa \<Longrightarrow> first = (filter (\<lambda>i. sa ! i) [0..<idx] = []) \<Longrightarrow>
   ss = comma_separated (map dec (filter (\<lambda>i. sa ! i) [0..<idx])) \<Longrightarrow>
   seat_loop sa idx first ss = comma_separated (map dec (filter (\<lambda>i. sa ! i) [0..<length sa]))"
proof (induction sa idx first ss rule: seat_loop.induct)
  case (1 sa idx first ss)
  show ?case
  proof (cases "idx < length sa")
    case False
    with "1.prems" show ?thesis by (simp add: seat_loop.simps)
  next
    case True
    show ?thesis
    proof (cases "sa ! idx")
      case avail: True
      have "seat_loop sa idx first ss
              = seat_loop sa (idx + 1) False ((if first then ss else ss @ '','') @ dec idx)"
        using True avail by (subst seat_loop.simps) simp
      also have "\<dots> = comma_separated (map dec (filter (\<lambda>i. sa ! i) [0..<length sa]))"
        using True avail "1.prems"
        by (intro "1.IH"(1)) (auto simp: comma_separated_snoc)
      finally show ?thesis .
    next
      case taken: False
      have "seat_loop sa idx first ss = seat_loop sa (idx + 1) first ss"
        using True taken by (subst seat_loop.simps) simp
      also have "\<dots> = comma_separated (map dec (filter (\<lambda>i. sa ! i) [0..<length sa]))"
        using True taken "1.prems"
        by (intro "1.IH"(2)) auto
      finally show ?thesis .
    qed
  qed
qed

lemma rebuild_cache_listing:
  "seat_cache (CinemaRoom_rebuild_cache r) = seat_listing (seat_available r)"
  unfolding CinemaRoom_rebuild_cache_def seat_listing_def available_seats_def
  by (simp add: seat_loop_eq)

lemma book_seats_cache:
  assumes "seat_cache r = seat_listing (seat_available r)"
  shows "seat_cache (snd (CinemaRoom_book_seats seats r))
           = seat_listing (seat_available (snd (CinemaRoom_book_seats seats r)))"
  using assms by (simp add: CinemaRoom_book_seats_def rebuild_cache_listing split: option.splits)

lemma book_seats_length:
  "length (seat_available (snd (CinemaRoom_book_seats seats r))) = length (seat_available r)"
  by (simp add: CinemaRoom_book_seats_def length_mark_seats split: option.splits)

lemma bookings_cache:
  "seat_cache r = seat_listing (seat_available r) \<Longrightarrow>
   seat_cache (bookings reqs r) = seat_listing (seat_available (bookings reqs r))"
  by (induction reqs arbitrary: r) (simp_all add: book_seats_cache)

lemma bookings_length:
  "length (seat_available (bookings reqs r)) = length (seat_available r)"
  by (induction reqs arbitrary: r) (simp_all add: book_seats_length)

lemma fresh_cache: "seat_cache CinemaRoom_new = seat_listing (seat_available CinemaRoom_new)"
  by (simp add: CinemaRoom_new_def rebuild_cache_listing)

lemma fresh_length: "length (seat_available CinemaRoom_new) = SEATS_PER_ROOM"
  by (simp add: CinemaRoom_new_def)

lemma digit_range: "d < 10 \<Longrightarrow> digit d \<in> set ''0123456789''"
proof -
  assume "d < 10"
  then have "d \<in> {0, 1, 2, 3, 4, 5, 6, 7, 8, 9}" by auto
  then show ?thesis by (auto simp: digit_def)
qed

lemma dec_digits: "set (dec n) \<subseteq> set ''0123456789''"
proof (induction n rule: dec.induct)
  case (1 n)
  show ?case
  proof (cases "n < 10")
    case True
    then show ?thesis using digit_range [of n] by (subst dec.simps) simp
  next
    case False
    have "n mod 10 < 10" by simp
    from digit_range [OF this] "1.IH" [OF False] False show ?thesis
      by (subst dec.simps) simp
  qed
qed

lemma digit_value_digit: "d < 10 \<Longrightarrow> digit_value (digit d) = d"
proof -
  assume "d < 10"
  then have "d \<in> {0, 1, 2, 3, 4, 5, 6, 7, 8, 9}" by auto
  then show ?thesis by (auto simp: digit_def digit_value_def)
qed

text \<open>\<open>dec\<close> writes the decimal numeral of its argument.\<close>

lemma dec_value: "decimal_value (dec n) = n"
proof (induction n rule: dec.induct)
  case (1 n)
  show ?case
  proof (cases "n < 10")
    case True
    then show ?thesis
      by (subst dec.simps) (simp add: decimal_value_def digit_value_digit)
  next
    case False
    have "decimal_value (dec n)
        = 10 * decimal_value (dec (n div 10)) + digit_value (digit (n mod 10))"
      using False by (subst dec.simps) (simp add: decimal_value_def)
    also have "\<dots> = 10 * (n div 10) + n mod 10"
      using "1.IH" [OF False] by (simp add: digit_value_digit)
    finally show ?thesis by simp
  qed
qed

lemma decimal_values: "map decimal_value (map dec ns) = ns"
  by (simp add: dec_value o_def)

lemma comma_separated_chars:
  "set (comma_separated xs) \<subseteq> insert CHR '','' (\<Union>(set ` set xs))"
  by (induction xs rule: comma_separated.induct) auto

lemma listing_chars: "set (comma_separated (map dec ns)) \<subseteq> set ''0123456789,''"
  using comma_separated_chars [of "map dec ns"] dec_digits by fastforce

lemma sorted_available_seats: "sorted_wrt (<) (available_seats sa)"
  by (simp add: available_seats_def sorted_wrt_filter)

text \<open>
  C6. In every room reached from a new one by booking requests, the cached listing is
  one line: the indices of the available seats, ascending, each written as its decimal
  numeral, with single commas between them, then CR LF. Before the CR LF the line holds
  digits and commas only. With no seat available it is CR LF alone, and a new room
  lists all of 0 to 19.
\<close>

theorem seat_listing_format:
  "seat_cache (bookings reqs CinemaRoom_new)
     = comma_separated (map dec (available_seats (seat_available (bookings reqs CinemaRoom_new))))
       @ [CHR 0x0D, CHR 0x0A]
   \<and> sorted_wrt (<) (available_seats (seat_available (bookings reqs CinemaRoom_new)))
   \<and> set (available_seats (seat_available (bookings reqs CinemaRoom_new)))
       = {idx. idx < 20 \<and> seat_available (bookings reqs CinemaRoom_new) ! idx}
   \<and> map decimal_value (map dec (available_seats (seat_available (bookings reqs CinemaRoom_new))))
       = available_seats (seat_available (bookings reqs CinemaRoom_new))
   \<and> set (comma_separated (map dec (available_seats (seat_available (bookings reqs CinemaRoom_new)))))
       \<subseteq> set ''0123456789,''
   \<and> (available (bookings reqs CinemaRoom_new) = {} \<longrightarrow>
        seat_cache (bookings reqs CinemaRoom_new) = [CHR 0x0D, CHR 0x0A])
   \<and> seat_cache CinemaRoom_new
       = ''0,1,2,3,4,5,6,7,8,9,10,11,12,13,14,15,16,17,18,19'' @ [CHR 0x0D, CHR 0x0A]"
proof -
  let ?r = "bookings reqs CinemaRoom_new"
  have cache: "seat_cache ?r = seat_listing (seat_available ?r)"
    by (rule bookings_cache) (rule fresh_cache)
  have len: "length (seat_available ?r) = 20"
    by (simp add: bookings_length fresh_length SEATS_PER_ROOM_def)
  have line: "seat_cache ?r
      = comma_separated (map dec (available_seats (seat_available ?r))) @ [CHR 0x0D, CHR 0x0A]"
    using cache by (simp add: seat_listing_def CBS_EOL_def)
  have members: "set (available_seats (seat_available ?r)) = {idx. idx < 20 \<and> seat_available ?r ! idx}"
    using len by (simp add: set_available_seats)
  have none: "seat_cache ?r = [CHR 0x0D, CHR 0x0A]" if "available ?r = {}"
    using that line by (simp add: available_def)
  have fresh: "seat_cache CinemaRoom_new
      = ''0,1,2,3,4,5,6,7,8,9,10,11,12,13,14,15,16,17,18,19'' @ [CHR 0x0D, CHR 0x0A]"
    by code_simp
  from line members none fresh sorted_available_seats listing_chars decimal_values
  show ?thesis by blast
qed

theorem seat_listing_format_witness:
  "available (bookings [[0, 1, 2, 3, 4, 5, 6, 7, 8, 9], [10, 11, 12, 13, 14, 15, 16, 17, 18, 19]]
                CinemaRoom_new) = {}
   \<and> seat_cache (bookings [[0, 1, 2, 3, 4, 5, 6, 7, 8, 9], [10, 11, 12, 13, 14, 15, 16, 17, 18, 19]]
                   CinemaRoom_new) = [CHR 0x0D, CHR 0x0A]"
proof -
  have h: "available (bookings [[0, 1, 2, 3, 4, 5, 6, 7, 8, 9], [10, 11, 12, 13, 14, 15, 16, 17, 18, 19]]
                CinemaRoom_new) = {}"
    by code_simp
  from h seat_listing_format
    [of "[[0, 1, 2, 3, 4, 5, 6, 7, 8, 9], [10, 11, 12, 13, 14, 15, 16, 17, 18, 19]]"]
  show ?thesis by blast
qed

section \<open>Unordered maps\<close>

lemma map_of_um_store:
  "map_of (um_store k v m) k' = (if k' = k then map_option (\<lambda>old. v) (map_of m k) else map_of m k')"
  by (induction m) auto

lemma um_at_Inr: "um_at m k = Inr v \<longleftrightarrow> map_of m k = Some v"
  by (simp add: um_at_def split: option.splits)

lemma um_at_Inl: "um_at m k = Inl e \<longleftrightarrow> map_of m k = None \<and> e = OutOfRange"
  by (auto simp: um_at_def split: option.splits)

lemma map_of_um_assign:
  "map_of (um_assign k v m) k' = (if k' = k then Some v else map_of m k')"
  by (auto simp: um_assign_def um_contains_def map_of_um_store)

lemma keys_um_store: "map fst (um_store k v m) = map fst m"
  by (induction m) auto

lemma keys_um_emplace: "fst ` set (um_emplace k v m) = insert k (fst ` set m)"
  by (auto simp: um_emplace_def um_contains_def map_of_eq_None_iff)

section \<open>BookingData: assigning theaters to a movie\<close>

lemma theater_lines_unknown:
  "\<exists>theater_id \<in> fst ` set rooms_for_movie. \<not> StringIdMap_has_id tlist theater_id \<Longrightarrow>
   theater_lines tlist rooms_for_movie ss = Inl OutOfRange"
proof (induction rooms_for_movie arbitrary: ss)
  case Nil
  then show ?case by simp
next
  case (Cons entry rest)
  obtain theater_id room where entry: "entry = (theater_id, room)" by (cases entry)
  show ?case
  proof (cases "StringIdMap_has_id tlist theater_id")
    case False
    then show ?thesis
      by (simp add: entry StringIdMap_has_id_def StringIdMap_get_string_def um_contains_def um_at_def)
  next
    case True
    with Cons.prems entry have "\<exists>t \<in> fst ` set rest. \<not> StringIdMap_has_id tlist t" by auto
    from Cons.IH [OF this] show ?thesis
      by (simp add: entry split: sum.splits)
         (auto simp: StringIdMap_get_string_def um_at_Inl)
  qed
qed

lemma keys_create_rooms:
  "fst ` set (create_rooms theaters rooms_for_this_movie)
     = set theaters \<union> fst ` set rooms_for_this_movie"
  by (induction theaters arbitrary: rooms_for_this_movie) (auto simp: keys_um_emplace)

text \<open>
  What \<^verbatim>\<open>add_theaters_to_movie\<close> does with an unknown theater id in a batch that
  passes its first loop: the rooms of the whole batch are created, then
  \<^verbatim>\<open>rebuild_cache(movie_id)\<close> throws \<^verbatim>\<open>std::out_of_range\<close> from
  \<^verbatim>\<open>get_string\<close>, and the rooms stay.
\<close>

lemma add_theaters_to_movie_unknown_theater:
  assumes "map_of (rooms bd) movie_id = Some rooms_for_this_movie"
    and "\<not> already_displaying rooms_for_this_movie theaters"
    and "\<exists>theater_id \<in> set theaters. \<not> StringIdMap_has_id (theater_list bd) theater_id"
  shows "BookingData_add_theaters_to_movie movie_id theaters bd
           = (Inl OutOfRange,
              bd\<lparr>rooms := um_store movie_id (create_rooms theaters rooms_for_this_movie) (rooms bd)\<rparr>)"
proof -
  let ?bd1 = "bd\<lparr>rooms := um_store movie_id (create_rooms theaters rooms_for_this_movie) (rooms bd)\<rparr>"
  have step: "BookingData_add_theaters_to_movie movie_id theaters bd
      = BookingData_rebuild_cache_movie movie_id ?bd1"
    using assms(1,2) by (simp add: BookingData_add_theaters_to_movie_def um_at_def)
  have rfm: "um_at (rooms ?bd1) movie_id = Inr (create_rooms theaters rooms_for_this_movie)"
    using assms(1) by (simp add: um_at_def map_of_um_store)
  from assms(3) have "\<exists>t \<in> fst ` set (create_rooms theaters rooms_for_this_movie).
      \<not> StringIdMap_has_id (theater_list ?bd1) t"
    by (auto simp: keys_create_rooms)
  then have "theater_lines (theater_list ?bd1) (create_rooms theaters rooms_for_this_movie) []
      = Inl OutOfRange"
    by (rule theater_lines_unknown)
  with rfm have "BookingData_rebuild_cache_movie movie_id ?bd1 = (Inl OutOfRange, ?bd1)"
    by (auto simp: BookingData_rebuild_cache_movie_def StringIdMap_get_string_def um_at_Inl
        split: sum.splits)
  with step show ?thesis by simp
qed

text \<open>
  C1. The specification has a call of \<^verbatim>\<open>add_theaters_to_movie\<close> with an unknown
  theater id fail and leave the store unchanged, and the header promises strong
  exception safety. In the store with the one movie \<open>M\<close> (id 1) and no
  theater, \<^verbatim>\<open>add_theaters_to_movie(1, {7})\<close> throws \<^verbatim>\<open>std::out_of_range\<close>, but
  \<^verbatim>\<open>rooms[1]\<close>, empty before the call, holds a new room for theater 7 after it.
  The cached theater listing of movie 1 is the one part that stays as it was.
\<close>

theorem unknown_theater_leaves_room:
  "BookingData_add_theaters_to_movie 1 [7] scenario_movies
     = (Inl OutOfRange, scenario_movies\<lparr>rooms := [(1, [(7, CinemaRoom_new)])]\<rparr>)
   \<and> rooms scenario_movies = [(1, [])]
   \<and> \<not> StringIdMap_has_id (theater_list scenario_movies) 7
   \<and> room_at scenario_movies 1 7 = None
   \<and> room_at (snd (BookingData_add_theaters_to_movie 1 [7] scenario_movies)) 1 7
       = Some CinemaRoom_new"
  unfolding scenario_movies_def by code_simp

section \<open>BookingData: what a booking leaves alone\<close>

lemma room_keys_um_store:
  "map_of ms k = Some rfm \<Longrightarrow> map fst rfm' = map fst rfm \<Longrightarrow>
   map (\<lambda>(movie_id, rooms_for_movie). (movie_id, map fst rooms_for_movie)) (um_store k rfm' ms)
     = map (\<lambda>(movie_id, rooms_for_movie). (movie_id, map fst rooms_for_movie)) ms"
  by (induction ms) (auto split: if_splits)

text \<open>
  C10. Whatever \<^verbatim>\<open>BookingData::book_seats\<close> returns or throws, the movie table, the
  theater table, the cached theater listings, the movie and theater keys of
  \<^verbatim>\<open>rooms\<close> and every room other than the one booked are as before the call.
\<close>

theorem book_seats_frame:
  "movie_list (snd (BookingData_book_seats movie_id theater_id seats bd)) = movie_list bd
   \<and> theater_list (snd (BookingData_book_seats movie_id theater_id seats bd)) = theater_list bd
   \<and> theaters_per_movie_cache (snd (BookingData_book_seats movie_id theater_id seats bd))
       = theaters_per_movie_cache bd
   \<and> room_keys (snd (BookingData_book_seats movie_id theater_id seats bd)) = room_keys bd
   \<and> (\<forall>m t. (m, t) \<noteq> (movie_id, theater_id) \<longrightarrow>
         room_at (snd (BookingData_book_seats movie_id theater_id seats bd)) m t = room_at bd m t)"
proof (cases "um_at (rooms bd) movie_id")
  case (Inl e)
  then show ?thesis by (simp add: BookingData_book_seats_def)
next
  case (Inr rooms_for_movie)
  note outer = this
  show ?thesis
  proof (cases "um_at rooms_for_movie theater_id")
    case (Inl e)
    with outer show ?thesis by (simp add: BookingData_book_seats_def)
  next
    case (Inr room)
    obtain result room' where booked: "CinemaRoom_book_seats seats room = (result, room')"
      by (cases "CinemaRoom_book_seats seats room")
    let ?inner = "um_store theater_id room' rooms_for_movie"
    have after: "snd (BookingData_book_seats movie_id theater_id seats bd)
        = bd\<lparr>rooms := um_store movie_id ?inner (rooms bd)\<rparr>"
      using outer Inr booked by (simp add: BookingData_book_seats_def)
    from outer have look: "map_of (rooms bd) movie_id = Some rooms_for_movie"
      by (simp add: um_at_Inr)
    have keys: "room_keys (bd\<lparr>rooms := um_store movie_id ?inner (rooms bd)\<rparr>) = room_keys bd"
      using room_keys_um_store [OF look, of ?inner] by (simp add: room_keys_def keys_um_store)
    have others: "room_at (bd\<lparr>rooms := um_store movie_id ?inner (rooms bd)\<rparr>) m t = room_at bd m t"
      if "(m, t) \<noteq> (movie_id, theater_id)" for m t
      using that look by (auto simp: room_at_def map_of_um_store)
    from after keys others show ?thesis by simp
  qed
qed

theorem book_seats_frame_witness:
  "fst (BookingData_book_seats 1 1 [0, 1, 2] scenario_store) = Inr ACCEPTED
   \<and> ((1, 2) :: MovieId \<times> TheaterId) \<noteq> (1, 1)
   \<and> room_at (snd (BookingData_book_seats 1 1 [0, 1, 2] scenario_store)) 1 2
       = room_at scenario_store 1 2
   \<and> room_at scenario_store 1 2 = Some CinemaRoom_new
   \<and> room_at (snd (BookingData_book_seats 1 1 [0, 1, 2] scenario_store)) 1 1
       \<noteq> room_at scenario_store 1 1"
proof -
  have accepted: "fst (BookingData_book_seats 1 1 [0, 1, 2] scenario_store) = Inr ACCEPTED"
    unfolding scenario_store_def scenario_theaters_def scenario_movies_def by code_simp
  have other: "((1, 2) :: MovieId \<times> TheaterId) \<noteq> (1, 1)" by simp
  have there: "room_at scenario_store 1 2 = Some CinemaRoom_new"
    unfolding scenario_store_def scenario_theaters_def scenario_movies_def by code_simp
  have booked: "room_at (snd (BookingData_book_seats 1 1 [0, 1, 2] scenario_store)) 1 1
       \<noteq> room_at scenario_store 1 1"
    unfolding scenario_store_def scenario_theaters_def scenario_movies_def by code_simp
  from book_seats_frame [of 1 1 "[0, 1, 2]" scenario_store] other
  have "room_at (snd (BookingData_book_seats 1 1 [0, 1, 2] scenario_store)) 1 2
       = room_at scenario_store 1 2"
    by blast
  with accepted other there booked show ?thesis by blast
qed

section \<open>BookingData: clear\<close>

lemma clear_clear_table: "StringIdMap_clear (StringIdMap_clear m) = StringIdMap_clear m"
  by (simp add: StringIdMap_clear_def StringIdMap_rebuild_cache_def)

lemma clear_result:
  "BookingData_clear bd
     = (Inr (),
        \<lparr>movie_list = StringIdMap_clear (movie_list bd),
         theater_list = StringIdMap_clear (theater_list bd),
         rooms = [], theaters_per_movie_cache = []\<rparr>)"
  by (simp add: BookingData_clear_def BookingData_rebuild_cache_def)

text \<open>
  C8. \<^verbatim>\<open>clear\<close> after \<^verbatim>\<open>clear\<close> gives the store that one \<^verbatim>\<open>clear\<close> gives, and
  never throws. In a cleared store the movie listing and the theater table's listing are
  the empty string and there is no movie or theater id; the theater listing of a movie
  and the seat listing of a room cannot be reached, every such call throws
  \<^verbatim>\<open>std::out_of_range\<close>.
\<close>

theorem clear_idempotent:
  "BookingData_clear (snd (BookingData_clear bd)) = BookingData_clear bd
   \<and> fst (BookingData_clear bd) = Inr ()
   \<and> BookingData_get_movies (snd (BookingData_clear bd)) = []
   \<and> StringIdMap_get_id_string_list (theater_list (snd (BookingData_clear bd))) = []
   \<and> BookingData_get_sorted_movie_ids (snd (BookingData_clear bd)) = []
   \<and> BookingData_get_sorted_theater_ids (snd (BookingData_clear bd)) = []
   \<and> (\<forall>movie_id.
        BookingData_get_theaters_for_movie (snd (BookingData_clear bd)) movie_id = Inl OutOfRange)
   \<and> (\<forall>movie_id theater_id.
        BookingData_get_available_seats (snd (BookingData_clear bd)) movie_id theater_id
          = Inl OutOfRange)"
  by (simp add: clear_result clear_clear_table BookingData_get_movies_def
      StringIdMap_get_id_string_list_def BookingData_get_sorted_movie_ids_def
      BookingData_get_sorted_theater_ids_def StringIdMap_get_sorted_keys_def
      BookingData_get_theaters_for_movie_def BookingData_get_available_seats_def
      um_at_def StringIdMap_clear_def StringIdMap_rebuild_cache_def)

section \<open>The caches agree with the contents\<close>

lemma id_lines_eq: "id_lines entries ss = ss @ id_listing entries"
  by (induction entries ss rule: id_lines.induct) (simp_all add: id_listing_def)

lemma table_cache_rebuild:
  "cached_list (StringIdMap_rebuild_cache m) = id_listing (id_strings (StringIdMap_rebuild_cache m))"
  by (simp add: StringIdMap_rebuild_cache_def id_lines_eq)

lemma table_cache_add:
  "StringIdMap_add names m = (Inr ids, m') \<Longrightarrow> cached_list m' = id_listing (id_strings m')"
  by (auto simp: StringIdMap_add_def table_cache_rebuild split: if_splits prod.splits)

lemma table_cache_clear:
  "cached_list (StringIdMap_clear m) = id_listing (id_strings (StringIdMap_clear m))"
  by (simp add: StringIdMap_clear_def table_cache_rebuild)

lemma theater_lines_eq:
  "theater_lines tlist rooms_for_movie ss
     = (case theater_listing (id_strings tlist) (map fst rooms_for_movie) of
          None \<Rightarrow> Inl OutOfRange
        | Some lines \<Rightarrow> Inr (ss @ lines))"
proof (induction rooms_for_movie arbitrary: ss)
  case Nil
  show ?case by simp
next
  case (Cons entry rest)
  obtain theater_id room where entry: "entry = (theater_id, room)" by (cases entry)
  show ?case
    by (simp add: entry Cons.IH StringIdMap_get_string_def um_at_def split: option.splits)
qed

lemma rebuild_cache_movie_ok:
  assumes "BookingData_rebuild_cache_movie movie_id bd = (Inr u, bd')"
  shows "theaters_cache_agrees bd' movie_id"
    and "rooms bd' = rooms bd" and "movie_list bd' = movie_list bd"
    and "theater_list bd' = theater_list bd"
    and "\<And>k. k \<noteq> movie_id \<Longrightarrow>
           map_of (theaters_per_movie_cache bd') k = map_of (theaters_per_movie_cache bd) k"
  using assms
  by (auto simp: BookingData_rebuild_cache_movie_def theaters_cache_agrees_def theater_lines_eq
      um_at_Inr map_of_um_assign split: sum.splits option.splits)

lemma store_cache_add_theaters_to_movie:
  assumes "BookingData_add_theaters_to_movie movie_id theaters bd = (Inr u, bd')"
  shows "theaters_cache_agrees bd' movie_id"
  using assms
  by (auto simp: BookingData_add_theaters_to_movie_def
      split: sum.splits if_splits intro: rebuild_cache_movie_ok(1))

lemma new_movie_rooms_step:
  assumes "BookingData_rebuild_cache_movie movie_id (bd\<lparr>rooms := um_assign movie_id [] (rooms bd)\<rparr>)
             = (Inr u, bd')"
  shows "fresh_movie bd' movie_id"
    and "\<And>k. fresh_movie bd k \<Longrightarrow> fresh_movie bd' k"
    and "movie_list bd' = movie_list bd" and "theater_list bd' = theater_list bd"
  using assms
  by (auto simp: BookingData_rebuild_cache_movie_def fresh_movie_def um_at_Inr map_of_um_assign
      split: sum.splits if_splits)

lemma new_movie_rooms_ok:
  "new_movie_rooms ids bd = (Inr u, bd') \<Longrightarrow>
   (\<forall>movie_id \<in> set ids. fresh_movie bd' movie_id)
   \<and> (\<forall>k. fresh_movie bd k \<longrightarrow> fresh_movie bd' k)
   \<and> movie_list bd' = movie_list bd \<and> theater_list bd' = theater_list bd"
proof (induction ids arbitrary: bd)
  case Nil
  then show ?case by simp
next
  case (Cons movie_id rest)
  from Cons.prems obtain u1 bd1 where
    step: "BookingData_rebuild_cache_movie movie_id (bd\<lparr>rooms := um_assign movie_id [] (rooms bd)\<rparr>)
             = (Inr u1, bd1)" and
    rest: "new_movie_rooms rest bd1 = (Inr u, bd')"
    by (auto split: prod.splits sum.splits)
  from new_movie_rooms_step [OF step] Cons.IH [OF rest] show ?case
    by auto
qed

lemma fresh_movie_agrees: "fresh_movie bd movie_id \<Longrightarrow> theaters_cache_agrees bd movie_id"
  by (simp add: fresh_movie_def theaters_cache_agrees_def)

lemma store_cache_add_movies:
  assumes "BookingData_add_movies movies bd = (Inr u, bd')"
    and "fst (StringIdMap_add movies (movie_list bd)) = Inr ids"
  shows "cached_list (movie_list bd') = id_listing (id_strings (movie_list bd'))"
    and "\<forall>movie_id \<in> set ids. theaters_cache_agrees bd' movie_id"
proof -
  from assms(2) obtain ml where add: "StringIdMap_add movies (movie_list bd) = (Inr ids, ml)"
    by (cases "StringIdMap_add movies (movie_list bd)") auto
  with assms(1) have loop: "new_movie_rooms ids (bd\<lparr>movie_list := ml\<rparr>) = (Inr u, bd')"
    by (simp add: BookingData_add_movies_def)
  from new_movie_rooms_ok [OF loop] have
    fresh: "\<forall>movie_id \<in> set ids. fresh_movie bd' movie_id" and ml: "movie_list bd' = ml"
    by simp_all
  from table_cache_add [OF add] ml
  show "cached_list (movie_list bd') = id_listing (id_strings (movie_list bd'))" by simp
  from fresh show "\<forall>movie_id \<in> set ids. theaters_cache_agrees bd' movie_id"
    by (auto intro: fresh_movie_agrees)
qed

lemma store_cache_add_theaters:
  assumes "BookingData_add_theaters theaters bd = (Inr u, bd')"
  shows "cached_list (theater_list bd') = id_listing (id_strings (theater_list bd'))"
  using assms
  by (auto simp: BookingData_add_theaters_def split: prod.splits sum.splits dest: table_cache_add)

lemma room_cache_accepted:
  "fst (CinemaRoom_book_seats seats r) = ACCEPTED \<Longrightarrow>
   seat_cache (snd (CinemaRoom_book_seats seats r))
     = seat_listing (seat_available (snd (CinemaRoom_book_seats seats r)))"
  by (auto simp: CinemaRoom_book_seats_def rebuild_cache_listing split: option.splits
      dest: check_seats_Some)

lemma store_cache_book_seats:
  assumes "BookingData_book_seats movie_id theater_id seats bd = (Inr ACCEPTED, bd')"
  shows "\<exists>room. room_at bd' movie_id theater_id = Some room
           \<and> seat_cache room = seat_listing (seat_available room)"
proof -
  from assms obtain rooms_for_movie where
    outer: "map_of (rooms bd) movie_id = Some rooms_for_movie"
    by (auto simp: BookingData_book_seats_def um_at_def split: option.splits)
  with assms obtain room where
    inner: "map_of rooms_for_movie theater_id = Some room"
    by (auto simp: BookingData_book_seats_def um_at_def split: option.splits)
  obtain result room' where booked: "CinemaRoom_book_seats seats room = (result, room')"
    by (cases "CinemaRoom_book_seats seats room")
  from assms outer inner booked have
    res: "result = ACCEPTED" and
    bd': "bd' = bd\<lparr>rooms := um_store movie_id (um_store theater_id room' rooms_for_movie) (rooms bd)\<rparr>"
    by (simp_all add: BookingData_book_seats_def um_at_def)
  from bd' outer inner have "room_at bd' movie_id theater_id = Some room'"
    by (simp add: room_at_def map_of_um_store)
  moreover from room_cache_accepted [of seats room] booked res
  have "seat_cache room' = seat_listing (seat_available room')" by simp
  ultimately show ?thesis by blast
qed

lemma store_cache_clear:
  "cached_list (movie_list (snd (BookingData_clear bd)))
     = id_listing (id_strings (movie_list (snd (BookingData_clear bd))))
   \<and> cached_list (theater_list (snd (BookingData_clear bd)))
     = id_listing (id_strings (theater_list (snd (BookingData_clear bd))))
   \<and> rooms (snd (BookingData_clear bd)) = []
   \<and> theaters_per_movie_cache (snd (BookingData_clear bd)) = []"
  by (simp add: clear_result table_cache_clear)

text \<open>
  C7. After each mutating operation that returns, the cache of what it changed is the
  listing written out from the contents: the \<^verbatim>\<open>StringIdMap\<close> cache is the
  concatenation of one line \<open>id,name\<close> CR LF for each entry of \<^verbatim>\<open>id_strings\<close>
  (after \<^verbatim>\<open>add\<close> and after \<^verbatim>\<open>clear\<close>); the seat cache of a room is its seat
  listing after an accepted booking, and stays in agreement through a refused one;
  \<^verbatim>\<open>add_movies\<close> leaves the movie table's cache and the theater listing of every
  new movie in agreement, \<^verbatim>\<open>add_theaters\<close> the theater table's cache,
  \<^verbatim>\<open>add_theaters_to_movie\<close> the theater listing of the movie, a booking through the
  store the seat cache of the booked room, and \<^verbatim>\<open>clear\<close> both tables' caches, with
  no room and no theater listing left.
\<close>

theorem cache_agreement:
  "(\<forall>names m ids m'. StringIdMap_add names m = (Inr ids, m') \<longrightarrow>
      cached_list m'
        = concat (map (\<lambda>(i, name). dec (unat i) @ '','' @ name @ [CHR 0x0D, CHR 0x0A])
            (id_strings m')))
   \<and> (\<forall>m. cached_list (StringIdMap_clear m) = id_listing (id_strings (StringIdMap_clear m)))
   \<and> (\<forall>seats r. fst (CinemaRoom_book_seats seats r) = ACCEPTED \<longrightarrow>
        seat_cache (snd (CinemaRoom_book_seats seats r))
          = seat_listing (seat_available (snd (CinemaRoom_book_seats seats r))))
   \<and> (\<forall>seats (r :: CinemaRoom). seat_cache r = seat_listing (seat_available r) \<longrightarrow>
        seat_cache (snd (CinemaRoom_book_seats seats r))
          = seat_listing (seat_available (snd (CinemaRoom_book_seats seats r))))
   \<and> (\<forall>movies bd bd' ids.
        BookingData_add_movies movies bd = (Inr (), bd')
        \<and> fst (StringIdMap_add movies (movie_list bd)) = Inr ids \<longrightarrow>
        cached_list (movie_list bd') = id_listing (id_strings (movie_list bd'))
        \<and> (\<forall>movie_id \<in> set ids. theaters_cache_agrees bd' movie_id))
   \<and> (\<forall>theaters bd bd'. BookingData_add_theaters theaters bd = (Inr (), bd') \<longrightarrow>
        cached_list (theater_list bd') = id_listing (id_strings (theater_list bd')))
   \<and> (\<forall>movie_id theaters bd bd'.
        BookingData_add_theaters_to_movie movie_id theaters bd = (Inr (), bd') \<longrightarrow>
        theaters_cache_agrees bd' movie_id)
   \<and> (\<forall>movie_id theater_id seats bd bd'.
        BookingData_book_seats movie_id theater_id seats bd = (Inr ACCEPTED, bd') \<longrightarrow>
        (\<exists>room. room_at bd' movie_id theater_id = Some room
           \<and> seat_cache room = seat_listing (seat_available room)))
   \<and> (\<forall>bd. cached_list (movie_list (snd (BookingData_clear bd)))
               = id_listing (id_strings (movie_list (snd (BookingData_clear bd))))
             \<and> cached_list (theater_list (snd (BookingData_clear bd)))
               = id_listing (id_strings (theater_list (snd (BookingData_clear bd))))
             \<and> rooms (snd (BookingData_clear bd)) = []
             \<and> theaters_per_movie_cache (snd (BookingData_clear bd)) = [])"
proof (intro conjI allI impI)
  fix names m ids m'
  assume "StringIdMap_add names m = (Inr ids, m')"
  from table_cache_add [OF this]
  show "cached_list m'
      = concat (map (\<lambda>(i, name). dec (unat i) @ '','' @ name @ [CHR 0x0D, CHR 0x0A]) (id_strings m'))"
    by (simp add: id_listing_def CBS_EOL_def)
next
  fix m
  show "cached_list (StringIdMap_clear m) = id_listing (id_strings (StringIdMap_clear m))"
    by (rule table_cache_clear)
next
  fix seats r
  assume "fst (CinemaRoom_book_seats seats r) = ACCEPTED"
  then show "seat_cache (snd (CinemaRoom_book_seats seats r))
          = seat_listing (seat_available (snd (CinemaRoom_book_seats seats r)))"
    by (rule room_cache_accepted)
next
  fix seats and r :: CinemaRoom
  assume "seat_cache r = seat_listing (seat_available r)"
  then show "seat_cache (snd (CinemaRoom_book_seats seats r))
          = seat_listing (seat_available (snd (CinemaRoom_book_seats seats r)))"
    by (rule book_seats_cache)
next
  fix movies bd bd' ids
  assume a: "BookingData_add_movies movies bd = (Inr (), bd')
        \<and> fst (StringIdMap_add movies (movie_list bd)) = Inr ids"
  then show "cached_list (movie_list bd') = id_listing (id_strings (movie_list bd'))"
    using store_cache_add_movies(1) by blast
  from a show "\<forall>movie_id \<in> set ids. theaters_cache_agrees bd' movie_id"
    using store_cache_add_movies(2) by blast
next
  fix theaters bd bd'
  assume "BookingData_add_theaters theaters bd = (Inr (), bd')"
  then show "cached_list (theater_list bd') = id_listing (id_strings (theater_list bd'))"
    by (rule store_cache_add_theaters)
next
  fix movie_id theaters bd bd'
  assume "BookingData_add_theaters_to_movie movie_id theaters bd = (Inr (), bd')"
  then show "theaters_cache_agrees bd' movie_id"
    by (rule store_cache_add_theaters_to_movie)
next
  fix movie_id theater_id seats bd bd'
  assume "BookingData_book_seats movie_id theater_id seats bd = (Inr ACCEPTED, bd')"
  then show "\<exists>room. room_at bd' movie_id theater_id = Some room
           \<and> seat_cache room = seat_listing (seat_available room)"
    by (rule store_cache_book_seats)
next
  fix bd
  show "cached_list (movie_list (snd (BookingData_clear bd)))
               = id_listing (id_strings (movie_list (snd (BookingData_clear bd))))"
    "cached_list (theater_list (snd (BookingData_clear bd)))
               = id_listing (id_strings (theater_list (snd (BookingData_clear bd))))"
    "rooms (snd (BookingData_clear bd)) = []"
    "theaters_per_movie_cache (snd (BookingData_clear bd)) = []"
    using store_cache_clear [of bd] by simp_all
qed

theorem cache_agreement_witness:
  "StringIdMap_add [''Terminator''] StringIdMap_new
     = (Inr [1], snd (StringIdMap_add [''Terminator''] StringIdMap_new))
   \<and> cached_list (snd (StringIdMap_add [''Terminator''] StringIdMap_new))
       = ''1,Terminator'' @ [CHR 0x0D, CHR 0x0A]
   \<and> fst (CinemaRoom_book_seats [0, 1, 2] CinemaRoom_new) = ACCEPTED
   \<and> seat_cache (snd (CinemaRoom_book_seats [0, 1, 2] CinemaRoom_new))
       = seat_listing (seat_available (snd (CinemaRoom_book_seats [0, 1, 2] CinemaRoom_new)))
   \<and> seat_cache CinemaRoom_new = seat_listing (seat_available CinemaRoom_new)
   \<and> seat_cache (snd (CinemaRoom_book_seats [3, 25] CinemaRoom_new))
       = seat_listing (seat_available (snd (CinemaRoom_book_seats [3, 25] CinemaRoom_new)))
   \<and> BookingData_add_movies [''M''] BookingData_new = (Inr (), scenario_movies)
   \<and> fst (StringIdMap_add [''M''] (movie_list BookingData_new)) = Inr [1]
   \<and> theaters_cache_agrees scenario_movies 1
   \<and> BookingData_add_theaters [''T'', ''U''] scenario_movies = (Inr (), scenario_theaters)
   \<and> cached_list (theater_list scenario_theaters)
       = id_listing (id_strings (theater_list scenario_theaters))
   \<and> BookingData_add_theaters_to_movie 1 [1, 2] scenario_theaters = (Inr (), scenario_store)
   \<and> theaters_cache_agrees scenario_store 1
   \<and> BookingData_book_seats 1 1 [0, 1, 2] scenario_store
       = (Inr ACCEPTED, snd (BookingData_book_seats 1 1 [0, 1, 2] scenario_store))
   \<and> (\<exists>room. room_at (snd (BookingData_book_seats 1 1 [0, 1, 2] scenario_store)) 1 1 = Some room
         \<and> seat_cache room = seat_listing (seat_available room))"
proof -
  have h1: "StringIdMap_add [''Terminator''] StringIdMap_new
     = (Inr [1], snd (StringIdMap_add [''Terminator''] StringIdMap_new))"
    by code_simp
  have h2: "fst (CinemaRoom_book_seats [0, 1, 2] CinemaRoom_new) = ACCEPTED"
    by code_simp
  have h3: "seat_cache CinemaRoom_new = seat_listing (seat_available CinemaRoom_new)"
    by code_simp
  have h4: "BookingData_add_movies [''M''] BookingData_new = (Inr (), scenario_movies)"
    unfolding scenario_movies_def by code_simp
  have h5: "fst (StringIdMap_add [''M''] (movie_list BookingData_new)) = Inr [1]"
    by code_simp
  have h6: "BookingData_add_theaters [''T'', ''U''] scenario_movies = (Inr (), scenario_theaters)"
    unfolding scenario_theaters_def scenario_movies_def by code_simp
  have h7: "BookingData_add_theaters_to_movie 1 [1, 2] scenario_theaters = (Inr (), scenario_store)"
    unfolding scenario_store_def scenario_theaters_def scenario_movies_def by code_simp
  have h8: "BookingData_book_seats 1 1 [0, 1, 2] scenario_store
       = (Inr ACCEPTED, snd (BookingData_book_seats 1 1 [0, 1, 2] scenario_store))"
    unfolding scenario_store_def scenario_theaters_def scenario_movies_def by code_simp
  note c1 = cache_agreement [THEN conjunct1, rule_format]
  note r1 = cache_agreement [THEN conjunct2, THEN conjunct2]
  note c3 = r1 [THEN conjunct1, rule_format]
  note c4 = r1 [THEN conjunct2, THEN conjunct1, rule_format]
  note r2 = r1 [THEN conjunct2, THEN conjunct2]
  note c5 = r2 [THEN conjunct1, rule_format]
  note c6 = r2 [THEN conjunct2, THEN conjunct1, rule_format]
  note r3 = r2 [THEN conjunct2, THEN conjunct2]
  note c7 = r3 [THEN conjunct1, rule_format]
  note c8 = r3 [THEN conjunct2, THEN conjunct1, rule_format]
  have "cached_list (snd (StringIdMap_add [''Terminator''] StringIdMap_new))
      = concat (map (\<lambda>(i, name). dec (unat i) @ '','' @ name @ [CHR 0x0D, CHR 0x0A])
          (id_strings (snd (StringIdMap_add [''Terminator''] StringIdMap_new))))"
    by (rule c1 [OF h1])
  also have "\<dots> = ''1,Terminator'' @ [CHR 0x0D, CHR 0x0A]"
    by code_simp
  finally have g1: "cached_list (snd (StringIdMap_add [''Terminator''] StringIdMap_new))
       = ''1,Terminator'' @ [CHR 0x0D, CHR 0x0A]" .
  note g2 = c3 [OF h2]
  note g3 = c4 [OF h3, of "[3, 25]"]
  from c5 [OF conjI [OF h4 h5]]
  have "\<forall>movie_id \<in> set [1]. theaters_cache_agrees scenario_movies movie_id"
    by (rule conjunct2)
  then have g4: "theaters_cache_agrees scenario_movies 1" by simp
  note g5 = c6 [OF h6]
  note g6 = c7 [OF h7]
  note g7 = c8 [OF h8]
  from h1 h2 h3 h4 h5 h6 h7 h8 g1 g2 g3 g4 g5 g6 g7 show ?thesis by blast
qed

end
